theory Spec2Isabelle
  imports Main
begin

section \<open>FrameLogger: a fixed-capacity per-frame recorder\<close>

text \<open>
  A shallow embedding of \<^verbatim>\<open>src/FrameLogger.h\<close>, the class template
  \<^verbatim>\<open>FrameLogger<Ts...>\<close>. Member functions become functions on a record of the data
  members; the output file stream is a record holding the stream's state and the
  characters that reached the file.
\<close>

subsection \<open>Outcomes of a call\<close>

text \<open>
  No member function of the class throws or returns an error code of its own. A call
  either returns, or lets an exception of the standard library escape (the vector
  constructors, on a negative size), or indexes a vector out of range, for which C++
  defines no behaviour at all.
\<close>

datatype exn = Length_error

datatype 'a outcome = Returns 'a | Throws exn | Undefined

fun and_then :: "'a outcome \<Rightarrow> ('a \<Rightarrow> 'b outcome) \<Rightarrow> 'b outcome" where
  "and_then (Returns x) f = f x"
| "and_then (Throws e) f = Throws e"
| "and_then Undefined f = Undefined"

text \<open>An error is signalled to the caller exactly when an exception escapes the call.\<close>

fun signals_error :: "'a outcome \<Rightarrow> bool" where
  "signals_error (Throws e) = True"
| "signals_error (Returns x) = False"
| "signals_error Undefined = False"

subsection \<open>Text representation\<close>

definition tab :: char where
  "tab = CHR 0x09"

definition newline :: char where
  "newline = CHR 0x0A"

definition digit_char :: "nat \<Rightarrow> char" where
  "digit_char d = char_of (48 + d)"

fun show_nat :: "nat \<Rightarrow> string" where
  "show_nat n = (if n < 10 then [digit_char n] else show_nat (n div 10) @ [digit_char (n mod 10)])"

declare show_nat.simps [simp del]

text \<open>\<^verbatim>\<open>outfile << i\<close> for an \<^verbatim>\<open>int\<close>: base 10, a minus sign for negatives.\<close>

definition show_int :: "int \<Rightarrow> string" where
  "show_int i = (if i < 0 then CHR ''-'' # show_nat (nat (- i)) else show_nat (nat i))"

text \<open>
  A field of a row, or a token handed to \<^verbatim>\<open>add_line\<close>/\<^verbatim>\<open>add_word\<close>: a value of a type
  with \<^verbatim>\<open>operator<<\<close>. Integers and strings are modelled. A \<^verbatim>\<open>std::tuple<Ts...>\<close> is the
  list of its fields in schema order; that every row has the arity and types of
  \<^verbatim>\<open>Ts...\<close> is checked by the C++ compiler, not by the class.
\<close>

datatype item = IntItem int | StrItem string

fun item_text :: "item \<Rightarrow> string" where
  "item_text (IntItem i) = show_int i"
| "item_text (StrItem s) = s"

type_synonym row = "item list"

subsection \<open>The output stream\<close>

text \<open>
  \<^verbatim>\<open>std::ofstream\<close>: whether a file is open, whether \<^verbatim>\<open>fail()\<close> holds, and the
  characters written to the destination so far. The exception mask is the default
  one, so a failure only sets the flag. Failures of the medium under an open file
  (a full disk) are outside the model.
\<close>

record ofstream =
  is_open :: bool
  fail :: bool
  contents :: string

definition new_ofstream :: ofstream where
  "new_ofstream = \<lparr>is_open = False, fail = False, contents = []\<rparr>"

text \<open>
  \<^verbatim>\<open>outfile.open(file_name, std::ios::out)\<close>. Whether the destination can be opened is the
  environment's answer \<open>can_open\<close>. Opening truncates; failing to open sets failbit.
\<close>

definition open_file :: "bool \<Rightarrow> ofstream \<Rightarrow> ofstream" where
  "open_file can_open os =
     (if is_open os \<or> \<not> can_open then os\<lparr>fail := True\<rparr>
      else os\<lparr>is_open := True, fail := False, contents := []\<rparr>)"

text \<open>
  \<^verbatim>\<open>outfile << s\<close>: nothing is inserted once \<^verbatim>\<open>fail()\<close> holds; inserting characters
  with no file open fails.
\<close>

definition put :: "string \<Rightarrow> ofstream \<Rightarrow> ofstream" where
  "put s os =
     (if fail os \<or> s = [] then os
      else if is_open os then os\<lparr>contents := contents os @ s\<rparr>
      else os\<lparr>fail := True\<rparr>)"

definition endl :: "ofstream \<Rightarrow> ofstream" where
  "endl os = put [newline] os"

definition close :: "ofstream \<Rightarrow> ofstream" where
  "close os = (if is_open os then os\<lparr>is_open := False\<rparr> else os\<lparr>fail := True\<rparr>)"

subsection \<open>The recorder\<close>

text \<open>
  The data members. The counters are C++ \<^verbatim>\<open>int\<close>s; in every state reached without an
  out-of-range subscript they lie between 0 and the size of their vector, so they never
  wrap and are modelled as \<open>int\<close>.
\<close>

record FrameLogger =
  m_index :: "int list"
  m_content :: "row list"
  last_index :: int
  last_frame :: int
  log_written :: bool
  outfile :: ofstream
  headline :: string

text \<open>
  The constructor. \<open>dflt\<close> is the value-initialised \<^verbatim>\<open>std::tuple<Ts...>\<close> that fills the
  \<^verbatim>\<open>num_frames\<close> slots of \<^verbatim>\<open>m_content\<close>. A negative size converts to a \<^verbatim>\<open>size_t\<close> beyond
  \<^verbatim>\<open>max_size()\<close>, and the vector's constructor throws. Running out of memory for a large
  positive size is outside the model.
\<close>

definition FrameLogger_ctor :: "int \<Rightarrow> int \<Rightarrow> bool \<Rightarrow> row \<Rightarrow> FrameLogger outcome" where
  "FrameLogger_ctor num_trials num_frames can_open dflt =
     (if num_trials < 0 \<or> num_frames < 0 then Throws Length_error
      else Returns
        \<lparr>m_index = replicate (nat num_trials) 0,
         m_content = replicate (nat num_frames) dflt,
         last_index = 0,
         last_frame = 0,
         log_written = False,
         outfile = open_file can_open new_ofstream,
         headline = []\<rparr>)"

definition add_headline :: "string \<Rightarrow> FrameLogger \<Rightarrow> FrameLogger" where
  "add_headline headline_in s = s\<lparr>headline := headline_in\<rparr>"

text \<open>
  \<^verbatim>\<open>m_index[last_index] = last_frame; ++last_index;\<close> The subscript is unchecked:
  outside \<open>[0, size)\<close> the behaviour is undefined.
\<close>

definition start_new_trial :: "FrameLogger \<Rightarrow> FrameLogger outcome" where
  "start_new_trial s =
     (if 0 \<le> last_index s \<and> last_index s < int (length (m_index s))
      then Returns (s\<lparr>m_index := (m_index s)[nat (last_index s) := last_frame s],
                       last_index := last_index s + 1\<rparr>)
      else Undefined)"

definition add_frame :: "row \<Rightarrow> FrameLogger \<Rightarrow> FrameLogger outcome" where
  "add_frame info_in s =
     (if 0 \<le> last_frame s \<and> last_frame s < int (length (m_content s))
      then Returns (s\<lparr>m_content := (m_content s)[nat (last_frame s) := info_in],
                       last_frame := last_frame s + 1\<rparr>)
      else Undefined)"

text \<open>The fold \<^verbatim>\<open>(outfile << ... << ts)\<close> inserts the tokens from left to right.\<close>

fun put_items :: "item list \<Rightarrow> ofstream \<Rightarrow> ofstream" where
  "put_items [] os = os"
| "put_items (t # ts) os = put_items ts (put (item_text t) os)"

definition add_line :: "item list \<Rightarrow> FrameLogger \<Rightarrow> FrameLogger" where
  "add_line ts s = s\<lparr>outfile := endl (put_items ts (outfile s))\<rparr>"

definition add_word :: "item list \<Rightarrow> FrameLogger \<Rightarrow> FrameLogger" where
  "add_word ts s = s\<lparr>outfile := put_items ts (outfile s)\<rparr>"

text \<open>\<^verbatim>\<open>((outfile << "\t" << item), ...)\<close>: a tab, then the field, for each field in order.\<close>

fun write_tuple_impl :: "row \<Rightarrow> ofstream \<Rightarrow> ofstream" where
  "write_tuple_impl [] os = os"
| "write_tuple_impl (item # items) os =
     write_tuple_impl items (put (item_text item) (put [tab] os))"

text \<open>
  \<^verbatim>\<open>write()\<close>, named \<open>write_out\<close> here (\<open>write\<close> is reserved), and its two loops with
  their unchecked subscripts. The member function has no guard of its own.
\<close>

function write_index_loop :: "int list \<Rightarrow> int \<Rightarrow> int \<Rightarrow> ofstream \<Rightarrow> ofstream outcome" where
  "write_index_loop m li ri os =
     (if ri < li then
        (if 0 \<le> ri \<and> ri < int (length m)
         then write_index_loop m li (ri + 1) (put [tab] (put (show_int (m ! nat ri)) os))
         else Undefined)
      else Returns os)"
  by pat_completeness auto
termination
  by (relation "measure (\<lambda>(m, li, ri, os). nat (li - ri))") auto

declare write_index_loop.simps [simp del]

function write_frame_loop :: "row list \<Rightarrow> int \<Rightarrow> int \<Rightarrow> ofstream \<Rightarrow> ofstream outcome" where
  "write_frame_loop c lf i os =
     (if i < lf then
        (if 0 \<le> i \<and> i < int (length c)
         then write_frame_loop c lf (i + 1)
                (endl (write_tuple_impl (c ! nat i) (put (show_int i) os)))
         else Undefined)
      else Returns os)"
  by pat_completeness auto
termination
  by (relation "measure (\<lambda>(c, lf, i, os). nat (lf - i))") auto

declare write_frame_loop.simps [simp del]

definition write_out :: "FrameLogger \<Rightarrow> FrameLogger outcome" where
  "write_out s =
     and_then
       (write_index_loop (m_index s) (last_index s) 0
          (endl (put ''trial index:'' (outfile s))))
       (\<lambda>os1.
          and_then
            (write_frame_loop (m_content s) (last_frame s) 0
               (endl (put (headline s) (put (''fr_nr'' @ [tab]) (endl (endl os1))))))
            (\<lambda>os2. Returns (s\<lparr>outfile := os2, log_written := True\<rparr>)))"

text \<open>
  The destructor: \<^verbatim>\<open>if (!log_written) write(); outfile.close();\<close> Its result is the state
  the object leaves behind, from which the file is read.
\<close>

definition destructor :: "FrameLogger \<Rightarrow> FrameLogger outcome" where
  "destructor s =
     and_then (if \<not> log_written s then write_out s else Returns s)
       (\<lambda>s1. Returns (s1\<lparr>outfile := close (outfile s1)\<rparr>))"

subsection \<open>Sequences of calls\<close>

datatype op =
    StartNewTrial
  | AddFrame row
  | AddLine "item list"
  | AddWord "item list"
  | AddHeadline string
  | Write

fun step :: "op \<Rightarrow> FrameLogger \<Rightarrow> FrameLogger outcome" where
  "step StartNewTrial s = start_new_trial s"
| "step (AddFrame r) s = add_frame r s"
| "step (AddLine ts) s = Returns (add_line ts s)"
| "step (AddWord ts) s = Returns (add_word ts s)"
| "step (AddHeadline h) s = Returns (add_headline h s)"
| "step Write s = write_out s"

fun run :: "op list \<Rightarrow> FrameLogger \<Rightarrow> FrameLogger outcome" where
  "run [] s = Returns s"
| "run (x # xs) s = and_then (step x s) (run xs)"

text \<open>Construct a recorder, then make the calls in order.\<close>

definition session :: "int \<Rightarrow> int \<Rightarrow> bool \<Rightarrow> row \<Rightarrow> op list \<Rightarrow> FrameLogger outcome" where
  "session num_trials num_frames can_open dflt ops =
     and_then (FrameLogger_ctor num_trials num_frames can_open dflt) (run ops)"

subsection \<open>What the calls are observed by\<close>

text \<open>The stream accepts output: a file is open and no failure flag is set.\<close>

definition good :: "ofstream \<Rightarrow> bool" where
  "good os = (is_open os \<and> \<not> fail os)"

definition sink :: "FrameLogger \<Rightarrow> string" where
  "sink s = contents (outfile s)"

text \<open>
  The serialization as the specification words it: the label line, the line of the
  recorded indices each followed by a tab, a blank line, the header line, and one line
  per recorded row, numbered from 0.
\<close>

definition stored_indices :: "FrameLogger \<Rightarrow> int list" where
  "stored_indices s = take (nat (last_index s)) (m_index s)"

definition stored_rows :: "FrameLogger \<Rightarrow> row list" where
  "stored_rows s = take (nat (last_frame s)) (m_content s)"

definition index_line :: "int list \<Rightarrow> string" where
  "index_line idx = concat (map (\<lambda>v. show_int v @ [tab]) idx) @ [newline]"

definition header_line :: "string \<Rightarrow> string" where
  "header_line h = ''fr_nr'' @ [tab] @ h @ [newline]"

definition row_line :: "nat \<Rightarrow> row \<Rightarrow> string" where
  "row_line i r = show_int (int i) @ concat (map (\<lambda>f. tab # item_text f) r) @ [newline]"

definition row_table :: "nat \<Rightarrow> row list \<Rightarrow> string" where
  "row_table k rows = concat (map (\<lambda>(i, r). row_line i r) (enumerate k rows))"

definition serialization :: "FrameLogger \<Rightarrow> string" where
  "serialization s =
     ''trial index:'' @ [newline] @ index_line (stored_indices s) @ [newline]
       @ header_line (headline s) @ row_table 0 (stored_rows s)"

text \<open>The counters lie within the pre-allocated vectors.\<close>

definition within_capacity :: "FrameLogger \<Rightarrow> bool" where
  "within_capacity s =
     (0 \<le> last_index s \<and> last_index s \<le> int (length (m_index s)) \<and>
      0 \<le> last_frame s \<and> last_frame s \<le> int (length (m_content s)))"

text \<open>
  The \<open>n_rows\<close> values seen by the calls of \<^verbatim>\<open>start_new_trial\<close> in a sequence of calls, in
  call order, up to the first call that does not return.
\<close>

fun observes :: "op \<Rightarrow> FrameLogger \<Rightarrow> int list" where
  "observes StartNewTrial s = [last_frame s]"
| "observes (AddFrame r) s = []"
| "observes (AddLine ts) s = []"
| "observes (AddWord ts) s = []"
| "observes (AddHeadline h) s = []"
| "observes Write s = []"

fun observed :: "op list \<Rightarrow> FrameLogger \<Rightarrow> int list" where
  "observed [] s = []"
| "observed (x # xs) s =
     (case step x s of
        Returns s1 \<Rightarrow> observes x s @ observed xs s1
      | Throws e \<Rightarrow> []
      | Undefined \<Rightarrow> [])"

fun adds_frame :: "op \<Rightarrow> bool" where
  "adds_frame (AddFrame r) = True"
| "adds_frame StartNewTrial = False"
| "adds_frame (AddLine ts) = False"
| "adds_frame (AddWord ts) = False"
| "adds_frame (AddHeadline h) = False"
| "adds_frame Write = False"

fun finalizes :: "op \<Rightarrow> bool" where
  "finalizes Write = True"
| "finalizes StartNewTrial = False"
| "finalizes (AddFrame r) = False"
| "finalizes (AddLine ts) = False"
| "finalizes (AddWord ts) = False"
| "finalizes (AddHeadline h) = False"

fun map_outcome :: "('a \<Rightarrow> 'b) \<Rightarrow> 'a outcome \<Rightarrow> 'b outcome" where
  "map_outcome f (Returns x) = Returns (f x)"
| "map_outcome f (Throws e) = Throws e"
| "map_outcome f Undefined = Undefined"

text \<open>The stream after a failed \<^verbatim>\<open>open\<close>: no file, failbit set, nothing written.\<close>

definition failed_stream :: ofstream where
  "failed_stream = \<lparr>is_open = False, fail = True, contents = []\<rparr>"

definition discard_output :: "FrameLogger \<Rightarrow> FrameLogger" where
  "discard_output s = s\<lparr>outfile := failed_stream\<rparr>"

subsection \<open>Example recorders\<close>

text \<open>
  The scenario of the specification: capacities \<open>T = 2\<close>, \<open>F = 5\<close>, a schema of an integer
  and a string; a trial of three frames, then a trial of two.
\<close>

definition scenario_start :: FrameLogger where
  "scenario_start =
     \<lparr>m_index = [0, 0], m_content = replicate 5 [IntItem 0, StrItem []], last_index = 0,
      last_frame = 0, log_written = False,
      outfile = \<lparr>is_open = True, fail = False, contents = []\<rparr>, headline = []\<rparr>"

definition scenario_calls :: "op list" where
  "scenario_calls =
     [StartNewTrial, AddFrame [IntItem 1, StrItem ''a''], AddFrame [IntItem 1, StrItem ''a''],
      AddFrame [IntItem 1, StrItem ''a''], StartNewTrial, AddFrame [IntItem 4, StrItem ''b''],
      AddFrame [IntItem 4, StrItem ''b'']]"

definition scenario_end :: FrameLogger where
  "scenario_end =
     \<lparr>m_index = [0, 3],
      m_content = [[IntItem 1, StrItem ''a''], [IntItem 1, StrItem ''a''],
        [IntItem 1, StrItem ''a''], [IntItem 4, StrItem ''b''], [IntItem 4, StrItem ''b'']],
      last_index = 2, last_frame = 5, log_written = False,
      outfile = \<lparr>is_open = True, fail = False, contents = []\<rparr>, headline = []\<rparr>"

text \<open>Capacities \<open>(1, 2)\<close>, a headline, one trial and one frame recorded.\<close>

definition one_frame_calls :: "op list" where
  "one_frame_calls = [AddHeadline ''v'', StartNewTrial, AddFrame [IntItem 7, StrItem ''q'']]"

definition one_frame_recorder :: FrameLogger where
  "one_frame_recorder =
     \<lparr>m_index = [0], m_content = [[IntItem 7, StrItem ''q''], [IntItem 0, StrItem []]],
      last_index = 1, last_frame = 1, log_written = False,
      outfile = \<lparr>is_open = True, fail = False, contents = []\<rparr>, headline = ''v''\<rparr>"

text \<open>Capacities \<open>(1, 1)\<close>, both used up.\<close>

definition full_recorder :: FrameLogger where
  "full_recorder =
     \<lparr>m_index = [0], m_content = [[IntItem 5]], last_index = 1, last_frame = 1,
      log_written = False, outfile = \<lparr>is_open = True, fail = False, contents = []\<rparr>,
      headline = []\<rparr>"

text \<open>Capacities \<open>(2, 1)\<close>, only a headline set.\<close>

definition headed_recorder :: FrameLogger where
  "headed_recorder =
     \<lparr>m_index = [0, 0], m_content = [[IntItem 0]], last_index = 0, last_frame = 0,
      log_written = False, outfile = \<lparr>is_open = True, fail = False, contents = []\<rparr>,
      headline = ''h''\<rparr>"

text \<open>Capacities \<open>(1, 1)\<close>, nothing recorded, the character \<open>n\<close> already in the file.\<close>

definition noted_recorder :: FrameLogger where
  "noted_recorder =
     \<lparr>m_index = [0], m_content = [[IntItem 0]], last_index = 0, last_frame = 0,
      log_written = False, outfile = \<lparr>is_open = True, fail = False, contents = ''n''\<rparr>,
      headline = []\<rparr>"

section \<open>Properties\<close>

subsection \<open>The stream and the loops of write\<close>

lemma put_Nil [simp]: "put [] os = os"
  by (simp add: put_def)

lemma put_put: "put b (put a os) = put (a @ b) os"
  by (simp add: put_def)

lemma put_good: "good os \<Longrightarrow> put s os = os\<lparr>contents := contents os @ s\<rparr>"
  by (simp add: put_def good_def)

lemma put_items_concat: "put_items ts os = put (concat (map item_text ts)) os"
  by (induction ts arbitrary: os) (simp_all add: put_put)

lemma write_tuple_impl_concat:
  "write_tuple_impl r os = put (concat (map (\<lambda>f. tab # item_text f) r)) os"
proof (induction r arbitrary: os)
  case Nil
  show ?case by simp
next
  case (Cons f r)
  then show ?case by (simp add: put_put)
qed

lemma row_body: "endl (write_tuple_impl r (put (show_int (int i)) os)) = put (row_line i r) os"
  by (simp add: endl_def write_tuple_impl_concat row_line_def put_put)

lemma write_index_loop_closed:
  "0 \<le> ri \<Longrightarrow> li \<le> int (length m) \<Longrightarrow>
   write_index_loop m li ri os =
     Returns (put (concat (map (\<lambda>v. show_int v @ [tab]) (take (nat li - nat ri) (drop (nat ri) m)))) os)"
proof (induction m li ri os rule: write_index_loop.induct)
  case (1 m li ri os)
  show ?case
  proof (cases "ri < li")
    case False
    then show ?thesis by (simp add: write_index_loop.simps [of m li ri os])
  next
    case True
    with "1.prems" have inr: "0 \<le> ri \<and> ri < int (length m)" by simp
    have n1: "nat (ri + 1) = Suc (nat ri)" using "1.prems" by simp
    have lt: "nat ri < length m" using inr by linarith
    have n2: "nat li - nat ri = Suc (nat li - Suc (nat ri))" using True "1.prems" by simp
    have tk: "take (nat li - nat ri) (drop (nat ri) m) =
        m ! nat ri # take (nat li - Suc (nat ri)) (drop (Suc (nat ri)) m)"
      using lt n2 by (simp add: Cons_nth_drop_Suc [symmetric])
    have ih: "write_index_loop m li (ri + 1) (put [tab] (put (show_int (m ! nat ri)) os)) =
        Returns (put (concat (map (\<lambda>v. show_int v @ [tab])
           (take (nat li - Suc (nat ri)) (drop (Suc (nat ri)) m))))
           (put [tab] (put (show_int (m ! nat ri)) os)))"
      using "1.IH" [OF True inr] "1.prems" n1 by simp
    show ?thesis
      using True inr ih
      by (simp add: write_index_loop.simps [of m li ri os] tk put_put)
  qed
qed

lemma write_frame_loop_closed:
  "0 \<le> i \<Longrightarrow> lf \<le> int (length c) \<Longrightarrow>
   write_frame_loop c lf i os =
     Returns (put (row_table (nat i) (take (nat lf - nat i) (drop (nat i) c))) os)"
proof (induction c lf i os rule: write_frame_loop.induct)
  case (1 c lf i os)
  show ?case
  proof (cases "i < lf")
    case False
    then show ?thesis by (simp add: write_frame_loop.simps [of c lf i os] row_table_def)
  next
    case True
    with "1.prems" have inr: "0 \<le> i \<and> i < int (length c)" by simp
    have n1: "nat (i + 1) = Suc (nat i)" using "1.prems" by simp
    have lt: "nat i < length c" using inr by linarith
    have n2: "nat lf - nat i = Suc (nat lf - Suc (nat i))" using True "1.prems" by simp
    have tk: "take (nat lf - nat i) (drop (nat i) c) =
        c ! nat i # take (nat lf - Suc (nat i)) (drop (Suc (nat i)) c)"
      using lt n2 by (simp add: Cons_nth_drop_Suc [symmetric])
    have body: "endl (write_tuple_impl (c ! nat i) (put (show_int i) os)) =
        put (row_line (nat i) (c ! nat i)) os"
      using row_body [of "c ! nat i" "nat i" os] "1.prems" by simp
    have ih: "write_frame_loop c lf (i + 1) (put (row_line (nat i) (c ! nat i)) os) =
        Returns (put (row_table (Suc (nat i)) (take (nat lf - Suc (nat i)) (drop (Suc (nat i)) c)))
           (put (row_line (nat i) (c ! nat i)) os))"
      using "1.IH" [OF True inr] "1.prems" n1 body by simp
    show ?thesis
      using True inr ih body
      by (simp add: write_frame_loop.simps [of c lf i os] tk put_put row_table_def)
  qed
qed

lemma write_out_closed:
  assumes "within_capacity s"
  shows "write_out s = Returns (s\<lparr>outfile := put (serialization s) (outfile s), log_written := True\<rparr>)"
proof -
  from assms have a: "last_index s \<le> int (length (m_index s))"
    and b: "last_frame s \<le> int (length (m_content s))"
    by (simp_all add: within_capacity_def)
  have i: "write_index_loop (m_index s) (last_index s) 0 os =
      Returns (put (concat (map (\<lambda>v. show_int v @ [tab]) (stored_indices s))) os)" for os
    using write_index_loop_closed [of 0 "last_index s" "m_index s" os] a
    by (simp add: stored_indices_def)
  have f: "write_frame_loop (m_content s) (last_frame s) 0 os =
      Returns (put (row_table 0 (stored_rows s)) os)" for os
    using write_frame_loop_closed [of 0 "last_frame s" "m_content s" os] b
    by (simp add: stored_rows_def)
  show ?thesis
    by (simp add: write_out_def i f serialization_def index_line_def header_line_def endl_def
        put_put)
qed

subsection \<open>States a recorder can reach\<close>

lemma put_keeps_good: "good os \<Longrightarrow> good (put x os)"
  by (simp add: put_def good_def)

lemma put_good_contents: "good os \<Longrightarrow> contents (put x os) = contents os @ x"
  by (simp add: put_def good_def)

lemma put_extends: "\<exists>w. contents (put x os) = contents os @ w"
  by (simp add: put_def)

lemma put_failed_stream: "put x failed_stream = failed_stream"
  by (simp add: put_def failed_stream_def)

lemma ctor_state:
  assumes "FrameLogger_ctor T F ok d = Returns s"
  shows "0 \<le> T" and "0 \<le> F"
    and "length (m_index s) = nat T" and "length (m_content s) = nat F"
    and "last_index s = 0" and "last_frame s = 0" and "\<not> log_written s"
    and "headline s = []" and "outfile s = open_file ok new_ofstream"
  using assms by (auto simp: FrameLogger_ctor_def split: if_splits)

lemma ctor_within_capacity: "FrameLogger_ctor T F ok d = Returns s \<Longrightarrow> within_capacity s"
  by (auto simp: FrameLogger_ctor_def within_capacity_def split: if_splits)

lemma start_new_trial_Returns:
  assumes "start_new_trial s = Returns s1"
  shows "0 \<le> last_index s" and "last_index s < int (length (m_index s))"
    and "s1 = s\<lparr>m_index := (m_index s)[nat (last_index s) := last_frame s],
                  last_index := last_index s + 1\<rparr>"
  using assms by (auto simp: start_new_trial_def split: if_splits)

lemma add_frame_Returns:
  assumes "add_frame r s = Returns s1"
  shows "0 \<le> last_frame s" and "last_frame s < int (length (m_content s))"
    and "s1 = s\<lparr>m_content := (m_content s)[nat (last_frame s) := r],
                  last_frame := last_frame s + 1\<rparr>"
  using assms by (auto simp: add_frame_def split: if_splits)

lemma step_within_capacity:
  assumes "within_capacity s" and "step x s = Returns s1"
  shows "within_capacity s1 \<and> length (m_index s1) = length (m_index s) \<and>
         length (m_content s1) = length (m_content s)"
proof (cases x)
  case StartNewTrial
  with assms show ?thesis
    by (auto simp: within_capacity_def start_new_trial_def split: if_splits)
next
  case (AddFrame r)
  with assms show ?thesis
    by (auto simp: within_capacity_def add_frame_def split: if_splits)
next
  case (AddLine ts)
  with assms show ?thesis by (auto simp: within_capacity_def add_line_def)
next
  case (AddWord ts)
  with assms show ?thesis by (auto simp: within_capacity_def add_word_def)
next
  case (AddHeadline h)
  with assms show ?thesis by (auto simp: within_capacity_def add_headline_def)
next
  case Write
  with assms show ?thesis
    using write_out_closed [OF assms(1)] by (auto simp: within_capacity_def)
qed

lemma and_then_Returns:
  "and_then r f = Returns y \<Longrightarrow> \<exists>x. r = Returns x \<and> f x = Returns y"
  by (cases r) simp_all

lemma run_within_capacity:
  "within_capacity s \<Longrightarrow> run ops s = Returns s1 \<Longrightarrow>
     within_capacity s1 \<and> length (m_index s1) = length (m_index s) \<and>
     length (m_content s1) = length (m_content s)"
proof (induction ops arbitrary: s)
  case Nil
  then show ?case by simp
next
  case (Cons x xs)
  from Cons.prems(2) obtain s2 where a: "step x s = Returns s2" and b: "run xs s2 = Returns s1"
    by (auto dest: and_then_Returns)
  from step_within_capacity [OF Cons.prems(1) a] Cons.IH [OF _ b] show ?case by simp
qed

lemma session_Returns:
  assumes "session T F ok d ops = Returns s"
  obtains s0 where "FrameLogger_ctor T F ok d = Returns s0" and "run ops s0 = Returns s"
  using assms unfolding session_def by (auto dest: and_then_Returns)

lemma session_state:
  assumes "session T F ok d ops = Returns s"
  shows "within_capacity s" and "int (length (m_index s)) = T" and "int (length (m_content s)) = F"
proof -
  from assms obtain s0 where c: "FrameLogger_ctor T F ok d = Returns s0" and r: "run ops s0 = Returns s"
    by (rule session_Returns)
  from run_within_capacity [OF ctor_within_capacity [OF c] r] ctor_state [OF c]
  show "within_capacity s" and "int (length (m_index s)) = T" and "int (length (m_content s)) = F"
    by simp_all
qed

subsection \<open>The recorded indices along a sequence of calls\<close>

lemma step_stored_indices:
  assumes "within_capacity s" and "step x s = Returns s1"
  shows "stored_indices s1 = stored_indices s @ observes x s"
proof (cases x)
  case StartNewTrial
  with assms(2) have lt: "nat (last_index s) < length (m_index s)" and nn: "0 \<le> last_index s"
    and s1: "s1 = s\<lparr>m_index := (m_index s)[nat (last_index s) := last_frame s],
                     last_index := last_index s + 1\<rparr>"
    by (auto simp: start_new_trial_def split: if_splits)
  have n1: "nat (last_index s + 1) = Suc (nat (last_index s))" using nn by simp
  show ?thesis
    using lt by (simp add: StartNewTrial s1 stored_indices_def n1 take_Suc_conv_app_nth)
next
  case (AddFrame r)
  with assms(2) show ?thesis
    by (auto simp: add_frame_def stored_indices_def split: if_splits)
next
  case (AddLine ts)
  with assms(2) show ?thesis by (auto simp: add_line_def stored_indices_def)
next
  case (AddWord ts)
  with assms(2) show ?thesis by (auto simp: add_word_def stored_indices_def)
next
  case (AddHeadline h)
  with assms(2) show ?thesis by (auto simp: add_headline_def stored_indices_def)
next
  case Write
  with assms(2) show ?thesis
    using write_out_closed [OF assms(1)] by (auto simp: stored_indices_def)
qed

lemma step_last_frame:
  assumes "within_capacity s" and "step x s = Returns s1"
  shows "last_frame s1 = (if adds_frame x then last_frame s + 1 else last_frame s)"
proof (cases x)
  case StartNewTrial
  with assms(2) show ?thesis by (auto simp: start_new_trial_def split: if_splits)
next
  case (AddFrame r)
  with assms(2) show ?thesis by (auto simp: add_frame_def split: if_splits)
next
  case (AddLine ts)
  with assms(2) show ?thesis by (auto simp: add_line_def)
next
  case (AddWord ts)
  with assms(2) show ?thesis by (auto simp: add_word_def)
next
  case (AddHeadline h)
  with assms(2) show ?thesis by (auto simp: add_headline_def)
next
  case Write
  with assms(2) show ?thesis using write_out_closed [OF assms(1)] by auto
qed

lemma observes_bound: "x \<in> set (observes y s) \<Longrightarrow> x = last_frame s"
  by (cases y) simp_all

lemma sorted_observes: "sorted (observes y s)"
  by (cases y) simp_all

lemma run_stored_indices:
  "within_capacity s \<Longrightarrow> run ops s = Returns s1 \<Longrightarrow>
     stored_indices s1 = stored_indices s @ observed ops s"
proof (induction ops arbitrary: s)
  case Nil
  then show ?case by simp
next
  case (Cons x xs)
  from Cons.prems(2) obtain s2 where a: "step x s = Returns s2" and b: "run xs s2 = Returns s1"
    by (auto dest: and_then_Returns)
  have w2: "within_capacity s2" using step_within_capacity [OF Cons.prems(1) a] by simp
  from Cons.IH [OF w2 b] step_stored_indices [OF Cons.prems(1) a] a
  show ?case by simp
qed

lemma run_observed_sorted:
  "within_capacity s \<Longrightarrow> run ops s = Returns s1 \<Longrightarrow>
     sorted (observed ops s) \<and> (\<forall>v \<in> set (observed ops s). last_frame s \<le> v)"
proof (induction ops arbitrary: s)
  case Nil
  then show ?case by simp
next
  case (Cons x xs)
  from Cons.prems(2) obtain s2 where a: "step x s = Returns s2" and b: "run xs s2 = Returns s1"
    by (auto dest: and_then_Returns)
  have w2: "within_capacity s2" using step_within_capacity [OF Cons.prems(1) a] by simp
  have mono: "last_frame s \<le> last_frame s2"
    using step_last_frame [OF Cons.prems(1) a] by (simp split: if_splits)
  from Cons.IH [OF w2 b] have ih: "sorted (observed xs s2)"
    and lb: "\<forall>v \<in> set (observed xs s2). last_frame s2 \<le> v" by simp_all
  have "sorted (observes x s @ observed xs s2)"
    using ih lb mono sorted_observes [of x s]
    by (auto simp: sorted_append dest!: observes_bound)
  moreover have "\<forall>v \<in> set (observes x s @ observed xs s2). last_frame s \<le> v"
    using lb mono by (auto dest!: observes_bound)
  ultimately show ?case using a by simp
qed

lemma run_no_frames:
  "within_capacity s \<Longrightarrow> run ops s = Returns s1 \<Longrightarrow> \<not> list_ex adds_frame ops \<Longrightarrow>
     last_frame s1 = last_frame s"
proof (induction ops arbitrary: s)
  case Nil
  then show ?case by simp
next
  case (Cons x xs)
  from Cons.prems(2) obtain s2 where a: "step x s = Returns s2" and b: "run xs s2 = Returns s1"
    by (auto dest: and_then_Returns)
  have w2: "within_capacity s2" using step_within_capacity [OF Cons.prems(1) a] by simp
  from Cons.prems(3) have nx: "\<not> adds_frame x" and nxs: "\<not> list_ex adds_frame xs" by simp_all
  from Cons.IH [OF w2 b nxs] step_last_frame [OF Cons.prems(1) a] nx show ?case by simp
qed

subsection \<open>The sink and the guard along a sequence of calls\<close>

lemma close_contents: "contents (close os) = contents os"
  by (simp add: close_def)

lemma put_items_keeps_good: "good os \<Longrightarrow> good (put_items ts os)"
  by (simp add: put_items_concat put_keeps_good)

lemma step_good:
  assumes "within_capacity s" and "good (outfile s)" and "step x s = Returns s1"
  shows "good (outfile s1)"
proof (cases x)
  case StartNewTrial
  with assms show ?thesis by (auto simp: start_new_trial_def split: if_splits)
next
  case (AddFrame r)
  with assms show ?thesis by (auto simp: add_frame_def split: if_splits)
next
  case (AddLine ts)
  with assms show ?thesis
    by (auto simp: add_line_def endl_def put_keeps_good put_items_keeps_good)
next
  case (AddWord ts)
  with assms show ?thesis by (auto simp: add_word_def put_items_keeps_good)
next
  case (AddHeadline h)
  with assms show ?thesis by (auto simp: add_headline_def)
next
  case Write
  with assms show ?thesis
    using write_out_closed [OF assms(1)] by (auto simp: put_keeps_good)
qed

lemma run_good:
  "within_capacity s \<Longrightarrow> good (outfile s) \<Longrightarrow> run ops s = Returns s1 \<Longrightarrow> good (outfile s1)"
proof (induction ops arbitrary: s)
  case Nil
  then show ?case by simp
next
  case (Cons x xs)
  from Cons.prems(3) obtain s2 where a: "step x s = Returns s2" and b: "run xs s2 = Returns s1"
    by (auto dest: and_then_Returns)
  have w2: "within_capacity s2" using step_within_capacity [OF Cons.prems(1) a] by simp
  from Cons.IH [OF w2 step_good [OF Cons.prems(1,2) a] b] show ?case .
qed

lemma step_not_written:
  assumes "\<not> log_written s" and "\<not> finalizes x" and "step x s = Returns s1"
  shows "\<not> log_written s1"
  using assms
  by (cases x)
    (auto simp: start_new_trial_def add_frame_def add_line_def add_word_def add_headline_def
      split: if_splits)

lemma run_not_written:
  "\<not> log_written s \<Longrightarrow> \<not> list_ex finalizes ops \<Longrightarrow> run ops s = Returns s1 \<Longrightarrow>
     \<not> log_written s1"
proof (induction ops arbitrary: s)
  case Nil
  then show ?case by simp
next
  case (Cons x xs)
  from Cons.prems(3) obtain s2 where a: "step x s = Returns s2" and b: "run xs s2 = Returns s1"
    by (auto dest: and_then_Returns)
  from Cons.prems(2) have nx: "\<not> finalizes x" and nxs: "\<not> list_ex finalizes xs" by simp_all
  from Cons.IH [OF step_not_written [OF Cons.prems(1) nx a] nxs b] show ?case .
qed

lemma open_file_good: "good (open_file True new_ofstream)"
  by (simp add: open_file_def new_ofstream_def good_def)

lemma serialization_fresh:
  assumes "FrameLogger_ctor T F ok d = Returns s"
  shows "serialization s =
    ''trial index:'' @ [newline] @ [newline] @ [newline] @ ''fr_nr'' @ [tab] @ [newline]"
  using ctor_state(5,6,8) [OF assms]
  by (simp add: serialization_def stored_indices_def stored_rows_def index_line_def
      header_line_def row_table_def enumerate_eq_zip)

lemma serialization_cong:
  "m_index s1 = m_index s \<Longrightarrow> m_content s1 = m_content s \<Longrightarrow> last_index s1 = last_index s \<Longrightarrow>
   last_frame s1 = last_frame s \<Longrightarrow> headline s1 = headline s \<Longrightarrow>
   serialization s1 = serialization s"
  by (simp add: serialization_def stored_indices_def stored_rows_def)

subsection \<open>A recorder whose destination did not open\<close>

lemma write_tuple_impl_failed: "write_tuple_impl r failed_stream = failed_stream"
  by (simp add: write_tuple_impl_concat put_failed_stream)

lemma put_items_failed: "put_items ts failed_stream = failed_stream"
  by (simp add: put_items_concat put_failed_stream)

lemma write_index_loop_failed:
  "write_index_loop m li ri failed_stream =
     map_outcome (\<lambda>os. failed_stream) (write_index_loop m li ri os)"
proof (induction m li ri os rule: write_index_loop.induct)
  case (1 m li ri os)
  show ?case
  proof (cases "ri < li \<and> 0 \<le> ri \<and> ri < int (length m)")
    case True
    with "1.IH" show ?thesis
      by (simp add: write_index_loop.simps [of m li ri os]
          write_index_loop.simps [of m li ri failed_stream] put_failed_stream)
  next
    case False
    then show ?thesis
      by (auto simp: write_index_loop.simps [of m li ri os]
          write_index_loop.simps [of m li ri failed_stream])
  qed
qed

lemma write_frame_loop_failed:
  "write_frame_loop c lf i failed_stream =
     map_outcome (\<lambda>os. failed_stream) (write_frame_loop c lf i os)"
proof (induction c lf i os rule: write_frame_loop.induct)
  case (1 c lf i os)
  show ?case
  proof (cases "i < lf \<and> 0 \<le> i \<and> i < int (length c)")
    case True
    with "1.IH" show ?thesis
      by (simp add: write_frame_loop.simps [of c lf i os]
          write_frame_loop.simps [of c lf i failed_stream] put_failed_stream endl_def
          write_tuple_impl_failed)
  next
    case False
    then show ?thesis
      by (auto simp: write_frame_loop.simps [of c lf i os]
          write_frame_loop.simps [of c lf i failed_stream])
  qed
qed

lemma write_out_discard:
  "write_out (discard_output s) = map_outcome discard_output (write_out s)"
proof -
  let ?a = "endl (put ''trial index:'' (outfile s))"
  have i: "write_index_loop (m_index s) (last_index s) 0 failed_stream =
      map_outcome (\<lambda>os. failed_stream) (write_index_loop (m_index s) (last_index s) 0 ?a)"
    by (rule write_index_loop_failed)
  show ?thesis
  proof (cases "write_index_loop (m_index s) (last_index s) 0 ?a")
    case (Returns os1)
    let ?b = "endl (put (headline s) (put (''fr_nr'' @ [tab]) (endl (endl os1))))"
    have f: "write_frame_loop (m_content s) (last_frame s) 0 failed_stream =
        map_outcome (\<lambda>os. failed_stream) (write_frame_loop (m_content s) (last_frame s) 0 ?b)"
      by (rule write_frame_loop_failed)
    show ?thesis
      using i f Returns
      by (cases "write_frame_loop (m_content s) (last_frame s) 0 ?b")
        (simp_all add: write_out_def discard_output_def endl_def put_failed_stream)
  next
    case (Throws e)
    with i show ?thesis
      by (simp add: write_out_def discard_output_def endl_def put_failed_stream)
  next
    case Undefined
    with i show ?thesis
      by (simp add: write_out_def discard_output_def endl_def put_failed_stream)
  qed
qed

lemma step_discard: "step x (discard_output s) = map_outcome discard_output (step x s)"
proof (cases x)
  case Write
  then show ?thesis by (simp add: write_out_discard)
qed (simp_all add: discard_output_def start_new_trial_def add_frame_def add_line_def add_word_def
    add_headline_def endl_def put_failed_stream put_items_failed)

lemma run_discard: "run ops (discard_output s) = map_outcome discard_output (run ops s)"
proof (induction ops arbitrary: s)
  case Nil
  show ?case by simp
next
  case (Cons x xs)
  show ?case by (cases "step x s") (simp_all add: step_discard Cons.IH)
qed

section \<open>The claims\<close>

subsection \<open>C1: calls beyond capacity\<close>

text \<open>
  C1 as stated: \<^verbatim>\<open>add_frame\<close> at \<open>n_rows = F\<close> and \<^verbatim>\<open>start_new_trial\<close> at \<open>n_idx = T\<close> signal a
  CapacityExceeded error and leave the state unchanged. The code has no such check: with
  capacities \<open>(1, 1)\<close>, the second \<^verbatim>\<open>add_frame\<close> and the second \<^verbatim>\<open>start_new_trial\<close> write one
  past the end of their vector; no error is signalled.
\<close>

theorem capacity_exceeded_counterexample:
  "session 1 1 True [IntItem 0] [AddFrame [IntItem 5], AddFrame [IntItem 6]] = Undefined \<and>
   \<not> signals_error (session 1 1 True [IntItem 0] [AddFrame [IntItem 5], AddFrame [IntItem 6]]) \<and>
   session 1 1 True [IntItem 0] [StartNewTrial, StartNewTrial] = Undefined \<and>
   \<not> signals_error (session 1 1 True [IntItem 0] [StartNewTrial, StartNewTrial])"
  by code_simp

text \<open>
  C1, amended: for every recorder constructed with capacities \<open>(T, F)\<close> and every state \<open>s\<close>
  it reaches, \<^verbatim>\<open>add_frame\<close> at \<open>n_rows = F\<close> and \<^verbatim>\<open>start_new_trial\<close> at \<open>n_idx = T\<close> have
  undefined behaviour (an unchecked write one past the end of the store), and neither
  call ever signals an error: keeping within the capacities is left to the caller.
\<close>

theorem capacity_overrun_undefined:
  assumes "session T F ok d ops = Returns s"
  shows "(last_frame s = F \<longrightarrow> add_frame r s = Undefined) \<and>
         (last_index s = T \<longrightarrow> start_new_trial s = Undefined) \<and>
         \<not> signals_error (add_frame r s) \<and> \<not> signals_error (start_new_trial s)"
  using session_state(2,3) [OF assms]
  by (auto simp: add_frame_def start_new_trial_def)

theorem capacity_overrun_undefined_witness:
  "session 1 1 True [IntItem 0] [StartNewTrial, AddFrame [IntItem 5]] = Returns full_recorder \<and>
   last_frame full_recorder = 1 \<and> last_index full_recorder = 1 \<and>
   add_frame [IntItem 6] full_recorder = Undefined \<and>
   start_new_trial full_recorder = Undefined"
proof -
  have h: "session 1 1 True [IntItem 0] [StartNewTrial, AddFrame [IntItem 5]] =
      Returns full_recorder"
    by code_simp
  have c: "last_frame full_recorder = 1 \<and> last_index full_recorder = 1"
    by (simp add: full_recorder_def)
  show ?thesis
    using h c capacity_overrun_undefined [OF h, of "[IntItem 6]"] by simp
qed

subsection \<open>C2: finalizing twice\<close>

text \<open>
  C2 as stated: a second call to finalize, explicit or at end of life, writes nothing.
  \<^verbatim>\<open>write()\<close> itself does not look at \<^verbatim>\<open>log_written\<close>: called twice on a fresh recorder, it
  emits the index block and the header twice.
\<close>

theorem finalize_twice_counterexample:
  "map_outcome sink (session 1 1 True [IntItem 0] [Write]) =
     Returns (''trial index:'' @ [newline, newline, newline] @ ''fr_nr'' @ [tab, newline]) \<and>
   map_outcome sink (session 1 1 True [IntItem 0] [Write, Write]) =
     Returns (''trial index:'' @ [newline, newline, newline] @ ''fr_nr'' @ [tab, newline] @
              ''trial index:'' @ [newline, newline, newline] @ ''fr_nr'' @ [tab, newline]) \<and>
   map_outcome sink (session 1 1 True [IntItem 0] [Write, Write]) \<noteq>
     map_outcome sink (session 1 1 True [IntItem 0] [Write])"
  by code_simp

text \<open>
  C2, amended: the guard is consulted by the destructor only. After a finalize, the
  end-of-life cleanup writes nothing, so the sink then holds what it held after that one
  finalize; an explicit second finalize is not guarded and appends the serialization
  once more.
\<close>

theorem finalize_guard_at_end_of_life_only:
  assumes "within_capacity s" and "good (outfile s)"
  shows "\<exists>s1. write_out s = Returns s1 \<and>
           map_outcome sink (destructor s1) = Returns (sink s1) \<and>
           map_outcome sink (write_out s1) = Returns (sink s1 @ serialization s)"
proof -
  define s1 where "s1 = s\<lparr>outfile := put (serialization s) (outfile s), log_written := True\<rparr>"
  have a: "write_out s = Returns s1" using write_out_closed [OF assms(1)] by (simp add: s1_def)
  have w1: "within_capacity s1" using assms(1) by (simp add: s1_def within_capacity_def)
  have g1: "good (outfile s1)" using assms(2) by (simp add: s1_def put_keeps_good)
  have e: "serialization s1 = serialization s"
    by (rule serialization_cong) (simp_all add: s1_def)
  have b: "map_outcome sink (destructor s1) = Returns (sink s1)"
    by (simp add: destructor_def s1_def sink_def close_contents)
  have c: "map_outcome sink (write_out s1) = Returns (sink s1 @ serialization s)"
    using write_out_closed [OF w1] g1 e by (simp add: sink_def put_good_contents)
  from a b c show ?thesis by blast
qed

theorem finalize_guard_at_end_of_life_only_witness:
  "within_capacity one_frame_recorder \<and> good (outfile one_frame_recorder) \<and>
   (\<exists>s1. write_out one_frame_recorder = Returns s1 \<and>
      map_outcome sink (destructor s1) = Returns (sink s1) \<and>
      map_outcome sink (write_out s1) =
        Returns (sink s1 @
      ''trial index:'' @ [newline] @
      ''0'' @ [tab] @ [newline] @
      [newline] @
      ''fr_nr'' @ [tab] @ ''v'' @ [newline] @
      ''0'' @ [tab] @ ''7'' @ [tab] @ ''q'' @ [newline]))"
proof -
  have w: "within_capacity one_frame_recorder"
    by (simp add: within_capacity_def one_frame_recorder_def)
  have g: "good (outfile one_frame_recorder)"
    by (simp add: good_def one_frame_recorder_def)
  have e: "serialization one_frame_recorder =
      ''trial index:'' @ [newline] @
      ''0'' @ [tab] @ [newline] @
      [newline] @
      ''fr_nr'' @ [tab] @ ''v'' @ [newline] @
      ''0'' @ [tab] @ ''7'' @ [tab] @ ''q'' @ [newline]"
    by code_simp
  show ?thesis
    using w g finalize_guard_at_end_of_life_only [OF w g] unfolding e by blast
qed

subsection \<open>C3: finalize at end of life\<close>

text \<open>
  C3 as stated: with no explicit finalize, the sink always contains the structured
  serialization after end of life. When the destination did not open at construction,
  the destructor still runs \<^verbatim>\<open>write()\<close>, but the failed stream drops every character: after
  a session with a headline, one trial and one frame, the sink is empty, while the
  serialization of the recorded data is not.
\<close>

theorem end_of_life_unopened_counterexample:
  "session 1 2 False [IntItem 0, StrItem []] one_frame_calls =
     Returns (discard_output one_frame_recorder) \<and>
   \<not> list_ex finalizes one_frame_calls \<and>
   map_outcome sink (destructor (discard_output one_frame_recorder)) = Returns [] \<and>
   serialization (discard_output one_frame_recorder) =
      ''trial index:'' @ [newline] @
      ''0'' @ [tab] @ [newline] @
      [newline] @
      ''fr_nr'' @ [tab] @ ''v'' @ [newline] @
      ''0'' @ [tab] @ ''7'' @ [tab] @ ''q'' @ [newline]"
proof -
  have a: "session 1 2 False [IntItem 0, StrItem []] one_frame_calls =
      Returns (discard_output one_frame_recorder)"
    by (simp add: session_def FrameLogger_ctor_def one_frame_calls_def one_frame_recorder_def
        discard_output_def failed_stream_def open_file_def new_ofstream_def
        start_new_trial_def add_frame_def add_headline_def numeral_2_eq_2)
  have b: "\<not> list_ex finalizes one_frame_calls"
    by (simp add: one_frame_calls_def)
  have w: "within_capacity (discard_output one_frame_recorder)"
    by (simp add: within_capacity_def discard_output_def one_frame_recorder_def)
  have n: "\<not> log_written (discard_output one_frame_recorder)"
    by (simp add: discard_output_def one_frame_recorder_def)
  have o: "outfile (discard_output one_frame_recorder) = failed_stream"
    by (simp add: discard_output_def)
  have e: "contents failed_stream = []"
    by (simp add: failed_stream_def)
  have c: "map_outcome sink (destructor (discard_output one_frame_recorder)) = Returns []"
    using n write_out_closed [OF w]
    by (simp add: destructor_def o put_failed_stream sink_def close_contents e)
  have "serialization one_frame_recorder =
      ''trial index:'' @ [newline] @
      ''0'' @ [tab] @ [newline] @
      [newline] @
      ''fr_nr'' @ [tab] @ ''v'' @ [newline] @
      ''0'' @ [tab] @ ''7'' @ [tab] @ ''q'' @ [newline]"
    by code_simp
  moreover have "serialization (discard_output one_frame_recorder) =
      serialization one_frame_recorder"
    by (rule serialization_cong) (simp_all add: discard_output_def)
  ultimately have d: "serialization (discard_output one_frame_recorder) =
      ''trial index:'' @ [newline] @
      ''0'' @ [tab] @ [newline] @
      [newline] @
      ''fr_nr'' @ [tab] @ ''v'' @ [newline] @
      ''0'' @ [tab] @ ''7'' @ [tab] @ ''q'' @ [newline]"
    by (simp only:)
  from a b c d show ?thesis by blast
qed

text \<open>
  C3, amended: if no call of a session was finalize, the destructor writes the
  serialization of the data recorded so far into the stream and closes the stream after
  that; provided the destination was opened at construction, the sink then holds its
  earlier contents followed by that serialization, and the stream is closed.
\<close>

theorem end_of_life_finalizes:
  assumes "session T F ok d ops = Returns s" and "\<not> list_ex finalizes ops"
  shows "\<exists>s1. destructor s = Returns s1 \<and>
           outfile s1 = close (put (serialization s) (outfile s)) \<and>
           (ok \<longrightarrow> sink s1 = sink s @ serialization s \<and> \<not> is_open (outfile s1))"
proof -
  from assms(1) obtain s0 where c: "FrameLogger_ctor T F ok d = Returns s0"
    and r: "run ops s0 = Returns s" by (rule session_Returns)
  have w: "within_capacity s" using assms(1) by (rule session_state(1))
  have nw: "\<not> log_written s"
    using run_not_written [OF ctor_state(7) [OF c] assms(2) r] .
  define s1 where "s1 = s\<lparr>outfile := close (put (serialization s) (outfile s)),
                          log_written := True\<rparr>"
  have d: "destructor s = Returns s1"
    using nw write_out_closed [OF w] by (simp add: destructor_def s1_def)
  have o: "outfile s1 = close (put (serialization s) (outfile s))" by (simp add: s1_def)
  have g: "ok \<longrightarrow> sink s1 = sink s @ serialization s \<and> \<not> is_open (outfile s1)"
  proof
    assume ok
    then have "good (outfile s0)" using ctor_state(9) [OF c] open_file_good by simp
    then have gs: "good (outfile s)" using run_good [OF ctor_within_capacity [OF c] _ r] by simp
    then have gp: "good (put (serialization s) (outfile s))" by (rule put_keeps_good)
    show "sink s1 = sink s @ serialization s \<and> \<not> is_open (outfile s1)"
      using gs gp by (simp add: sink_def o close_contents put_good_contents close_def good_def)
  qed
  from d o g show ?thesis by blast
qed

theorem end_of_life_finalizes_witness:
  "session 1 2 True [IntItem 0, StrItem []] one_frame_calls = Returns one_frame_recorder \<and>
   \<not> list_ex finalizes one_frame_calls \<and>
   (\<exists>s1. destructor one_frame_recorder = Returns s1 \<and>
      sink s1 =
      ''trial index:'' @ [newline] @
      ''0'' @ [tab] @ [newline] @
      [newline] @
      ''fr_nr'' @ [tab] @ ''v'' @ [newline] @
      ''0'' @ [tab] @ ''7'' @ [tab] @ ''q'' @ [newline] \<and>
      \<not> is_open (outfile s1))"
proof -
  have h: "session 1 2 True [IntItem 0, StrItem []] one_frame_calls = Returns one_frame_recorder"
    by code_simp
  have n: "\<not> list_ex finalizes one_frame_calls"
    by (simp add: one_frame_calls_def)
  have e: "sink one_frame_recorder @ serialization one_frame_recorder =
      ''trial index:'' @ [newline] @
      ''0'' @ [tab] @ [newline] @
      [newline] @
      ''fr_nr'' @ [tab] @ ''v'' @ [newline] @
      ''0'' @ [tab] @ ''7'' @ [tab] @ ''q'' @ [newline]"
    by code_simp
  show ?thesis
    using h n end_of_life_finalizes [OF h n] unfolding e by blast
qed

subsection \<open>C4: the output format\<close>

text \<open>
  C4: for every state within capacity whose stream accepts output, finalize appends to
  the sink exactly \<open>serialization s\<close>: the line \<^verbatim>\<open>trial index:\<close>, the \<open>n_idx\<close> recorded indices
  each followed by a tab on one line, a blank line, the header line \<^verbatim>\<open>fr_nr\<close>, tab, headline,
  and for each \<open>i < n_rows\<close> a line of \<open>i\<close> followed by a tab and the text of each field of
  row \<open>i\<close>, and nothing after it.
\<close>

theorem finalize_output_format:
  assumes "within_capacity s" and "good (outfile s)"
  shows "map_outcome sink (write_out s) = Returns (sink s @ serialization s)"
  using write_out_closed [OF assms(1)] assms(2)
  by (simp add: sink_def put_good_contents)

theorem finalize_output_format_witness:
  "within_capacity scenario_end \<and> good (outfile scenario_end) \<and>
   map_outcome sink (write_out scenario_end) =
     Returns (
      ''trial index:'' @ [newline] @
      ''0'' @ [tab] @ ''3'' @ [tab] @ [newline] @
      [newline] @
      ''fr_nr'' @ [tab] @ [newline] @
      ''0'' @ [tab] @ ''1'' @ [tab] @ ''a'' @ [newline] @
      ''1'' @ [tab] @ ''1'' @ [tab] @ ''a'' @ [newline] @
      ''2'' @ [tab] @ ''1'' @ [tab] @ ''a'' @ [newline] @
      ''3'' @ [tab] @ ''4'' @ [tab] @ ''b'' @ [newline] @
      ''4'' @ [tab] @ ''4'' @ [tab] @ ''b'' @ [newline])"
proof -
  have w: "within_capacity scenario_end"
    by (simp add: within_capacity_def scenario_end_def)
  have g: "good (outfile scenario_end)"
    by (simp add: good_def scenario_end_def)
  have e: "sink scenario_end @ serialization scenario_end =
      ''trial index:'' @ [newline] @
      ''0'' @ [tab] @ ''3'' @ [tab] @ [newline] @
      [newline] @
      ''fr_nr'' @ [tab] @ [newline] @
      ''0'' @ [tab] @ ''1'' @ [tab] @ ''a'' @ [newline] @
      ''1'' @ [tab] @ ''1'' @ [tab] @ ''a'' @ [newline] @
      ''2'' @ [tab] @ ''1'' @ [tab] @ ''a'' @ [newline] @
      ''3'' @ [tab] @ ''4'' @ [tab] @ ''b'' @ [newline] @
      ''4'' @ [tab] @ ''4'' @ [tab] @ ''b'' @ [newline]"
    by code_simp
  show ?thesis
    using w g finalize_output_format [OF w g] unfolding e by blast
qed

subsection \<open>C5: what start_new_trial records\<close>

text \<open>
  C5: in every state \<open>s\<close> a recorder of capacities \<open>(T, F)\<close> reaches with \<open>n_idx < T\<close>,
  \<^verbatim>\<open>start_new_trial\<close> returns and appends the current \<open>n_rows\<close> to the recorded indices; if
  no \<^verbatim>\<open>add_frame\<close> was called before, that value is 0; and two consecutive calls (room
  permitting) both return and record the same value twice.
\<close>

theorem start_new_trial_records_n_rows:
  assumes "session T F ok d ops = Returns s" and "last_index s < T"
  shows "(\<exists>s1. start_new_trial s = Returns s1 \<and>
            stored_indices s1 = stored_indices s @ [last_frame s] \<and>
            last_frame s1 = last_frame s) \<and>
         (\<not> list_ex adds_frame ops \<longrightarrow> last_frame s = 0) \<and>
         (last_index s + 1 < T \<longrightarrow>
            (\<exists>s2. run [StartNewTrial, StartNewTrial] s = Returns s2 \<and>
               stored_indices s2 = stored_indices s @ [last_frame s, last_frame s]))"
proof -
  note st = session_state [OF assms(1)]
  from st(1) have nn: "0 \<le> last_index s" by (simp add: within_capacity_def)
  define s1 where "s1 = s\<lparr>m_index := (m_index s)[nat (last_index s) := last_frame s],
                          last_index := last_index s + 1\<rparr>"
  have r1: "start_new_trial s = Returns s1"
    using nn assms(2) st(2) by (simp add: start_new_trial_def s1_def)
  then have step1: "step StartNewTrial s = Returns s1" by simp
  have i1: "stored_indices s1 = stored_indices s @ [last_frame s]"
    using step_stored_indices [OF st(1) step1] by simp
  have f1: "last_frame s1 = last_frame s" by (simp add: s1_def)
  have A: "\<exists>s1. start_new_trial s = Returns s1 \<and>
            stored_indices s1 = stored_indices s @ [last_frame s] \<and>
            last_frame s1 = last_frame s"
    using r1 i1 f1 by blast
  have B: "\<not> list_ex adds_frame ops \<longrightarrow> last_frame s = 0"
  proof
    assume na: "\<not> list_ex adds_frame ops"
    from assms(1) obtain s0 where c: "FrameLogger_ctor T F ok d = Returns s0"
      and r: "run ops s0 = Returns s" by (rule session_Returns)
    from run_no_frames [OF ctor_within_capacity [OF c] r na] ctor_state(6) [OF c]
    show "last_frame s = 0" by simp
  qed
  have C: "last_index s + 1 < T \<longrightarrow>
            (\<exists>s2. run [StartNewTrial, StartNewTrial] s = Returns s2 \<and>
               stored_indices s2 = stored_indices s @ [last_frame s, last_frame s])"
  proof
    assume lt: "last_index s + 1 < T"
    have w1: "within_capacity s1" and l1: "length (m_index s1) = length (m_index s)"
      using step_within_capacity [OF st(1) step1] by simp_all
    define s2 where "s2 = s1\<lparr>m_index := (m_index s1)[nat (last_index s1) := last_frame s1],
                          last_index := last_index s1 + 1\<rparr>"
    have li1: "last_index s1 = last_index s + 1" by (simp add: s1_def)
    have r2: "start_new_trial s1 = Returns s2"
      using nn lt st(2) l1 li1 by (simp add: start_new_trial_def s2_def)
    then have step2: "step StartNewTrial s1 = Returns s2" by simp
    have i2: "stored_indices s2 = stored_indices s1 @ [last_frame s1]"
      using step_stored_indices [OF w1 step2] by simp
    have "run [StartNewTrial, StartNewTrial] s = Returns s2" using r1 r2 by simp
    moreover have "stored_indices s2 = stored_indices s @ [last_frame s, last_frame s]"
      using i1 i2 f1 by simp
    ultimately show "\<exists>s2. run [StartNewTrial, StartNewTrial] s = Returns s2 \<and>
               stored_indices s2 = stored_indices s @ [last_frame s, last_frame s]" by blast
  qed
  from A B C show ?thesis by blast
qed

theorem start_new_trial_records_n_rows_witness:
  "session 2 1 True [IntItem 0] [AddHeadline ''h''] = Returns headed_recorder \<and>
   last_index headed_recorder < 2 \<and>
   \<not> list_ex adds_frame [AddHeadline ''h''] \<and>
   last_index headed_recorder + 1 < 2 \<and>
   (\<exists>s1. start_new_trial headed_recorder = Returns s1 \<and> stored_indices s1 = [0]) \<and>
   (\<exists>s2. run [StartNewTrial, StartNewTrial] headed_recorder = Returns s2 \<and>
      stored_indices s2 = [0, 0])"
proof -
  have h: "session 2 1 True [IntItem 0] [AddHeadline ''h''] = Returns headed_recorder"
    by code_simp
  have l: "last_index headed_recorder < 2"
    by (simp add: headed_recorder_def)
  have z: "last_index headed_recorder = 0 \<and> last_frame headed_recorder = 0 \<and>
      stored_indices headed_recorder = []"
    by (simp add: headed_recorder_def stored_indices_def)
  show ?thesis
    using h z start_new_trial_records_n_rows [OF h l] by auto
qed

subsection \<open>C6: the recorded indices\<close>

text \<open>
  C6: after every sequence of calls on a fresh recorder in which each call returns (so the
  capacities were respected), the recorded trial-start indices are non-decreasing, and
  they are, in order, the \<open>n_rows\<close> values that the calls of \<^verbatim>\<open>start_new_trial\<close> saw.
\<close>

theorem stored_indices_nondecreasing_observed:
  assumes "FrameLogger_ctor T F ok d = Returns s0" and "run ops s0 = Returns s"
  shows "sorted (stored_indices s) \<and> stored_indices s = observed ops s0"
proof -
  have w: "within_capacity s0" using assms(1) by (rule ctor_within_capacity)
  have e: "stored_indices s0 = []"
    using ctor_state(5) [OF assms(1)] by (simp add: stored_indices_def)
  from run_stored_indices [OF w assms(2)] e run_observed_sorted [OF w assms(2)]
  show ?thesis by simp
qed

theorem stored_indices_nondecreasing_observed_witness:
  "FrameLogger_ctor 2 5 True [IntItem 0, StrItem []] = Returns scenario_start \<and>
   run scenario_calls scenario_start = Returns scenario_end \<and>
   sorted (stored_indices scenario_end) \<and>
   stored_indices scenario_end = [0, 3] \<and>
   observed scenario_calls scenario_start = [0, 3]"
proof -
  have c: "FrameLogger_ctor 2 5 True [IntItem 0, StrItem []] = Returns scenario_start"
    by code_simp
  have r: "run scenario_calls scenario_start = Returns scenario_end"
    by code_simp
  have i: "stored_indices scenario_end = [0, 3]"
    by code_simp
  show ?thesis
    using c r i stored_indices_nondecreasing_observed [OF c r] by simp
qed

subsection \<open>C7: a destination that cannot be opened\<close>

text \<open>
  C7 as stated: a destination that cannot be opened is reported to the caller at
  construction, and the recorder is not usable afterwards. The constructor does not test
  the stream: it returns, and the recorder takes every further call.
\<close>

theorem construction_error_counterexample:
  "\<not> signals_error (FrameLogger_ctor 1 1 False [IntItem 0]) \<and>
   session 1 1 False [IntItem 0] [StartNewTrial, AddFrame [IntItem 5], Write] =
     Returns \<lparr>m_index = [0], m_content = [[IntItem 5]], last_index = 1, last_frame = 1,
       log_written = True, outfile = \<lparr>is_open = False, fail = True, contents = []\<rparr>,
       headline = []\<rparr>"
  by (simp add: session_def FrameLogger_ctor_def open_file_def new_ofstream_def
      start_new_trial_def add_frame_def write_out_def write_index_loop.simps
      write_frame_loop.simps put_def endl_def)

text \<open>
  C7, amended: the constructor signals nothing about the destination (it throws for a
  negative capacity only). A recorder whose destination did not open behaves, call for
  call, as one whose destination opened, with the same recorded data, except that its
  stream is in the failed state and all output is discarded.
\<close>

theorem unopenable_destination_is_silent:
  "session T F False d ops = map_outcome discard_output (session T F True d ops) \<and>
   signals_error (FrameLogger_ctor T F False d) = (T < 0 \<or> F < 0)"
proof -
  have c: "FrameLogger_ctor T F False d =
      map_outcome discard_output (FrameLogger_ctor T F True d)"
    by (simp add: FrameLogger_ctor_def discard_output_def open_file_def new_ofstream_def
        failed_stream_def)
  have "session T F False d ops = map_outcome discard_output (session T F True d ops)"
    unfolding session_def c
    by (cases "FrameLogger_ctor T F True d") (simp_all add: run_discard)
  moreover have "signals_error (FrameLogger_ctor T F False d) = (T < 0 \<or> F < 0)"
    by (simp add: FrameLogger_ctor_def)
  ultimately show ?thesis by simp
qed

subsection \<open>C8: add_line and add_word\<close>

text \<open>
  C8: on a stream that accepts output, \<^verbatim>\<open>add_line\<close> appends the texts of its tokens, with
  nothing between them, and one line terminator; \<^verbatim>\<open>add_word\<close> appends the same texts and no
  terminator; the stream accepts output afterwards.
\<close>

theorem raw_channel_output:
  assumes "good (outfile s)"
  shows "sink (add_line ts s) = sink s @ concat (map item_text ts) @ [newline] \<and>
         sink (add_word ts s) = sink s @ concat (map item_text ts) \<and>
         good (outfile (add_line ts s)) \<and> good (outfile (add_word ts s))"
  using assms
  by (simp add: add_line_def add_word_def sink_def endl_def put_items_concat put_put
      put_good_contents put_keeps_good)

theorem raw_channel_output_witness:
  "good (outfile noted_recorder) \<and>
   sink (add_line [StrItem ''x'', IntItem 1] noted_recorder) = ''n'' @ ''x1'' @ [newline] \<and>
   sink (add_word [StrItem ''z''] (add_word [StrItem ''y'']
     (add_line [StrItem ''x'', IntItem 1] noted_recorder))) =
     ''n'' @ ''x1'' @ [newline] @ ''yz''"
proof -
  have g: "good (outfile noted_recorder)"
    by (simp add: good_def noted_recorder_def)
  have e: "sink noted_recorder @ concat (map item_text [StrItem ''x'', IntItem 1]) @ [newline] =
      ''n'' @ ''x1'' @ [newline]"
    by code_simp
  have z: "sink (add_word [StrItem ''z''] (add_word [StrItem ''y'']
     (add_line [StrItem ''x'', IntItem 1] noted_recorder))) =
     ''n'' @ ''x1'' @ [newline] @ ''yz''"
    by code_simp
  show ?thesis
    using g z raw_channel_output [OF g, of "[StrItem ''x'', IntItem 1]"] unfolding e by blast
qed

subsection \<open>C9: add_line and add_word change nothing but the sink\<close>

text \<open>
  C9: \<^verbatim>\<open>add_line\<close> and \<^verbatim>\<open>add_word\<close> leave the stored indices and rows, both counters, the
  headline and the written flag as they were, and the sink's contents only grow at the
  end.
\<close>

theorem raw_channel_frame:
  "m_index (add_line ts s) = m_index s \<and> m_content (add_line ts s) = m_content s \<and>
   last_index (add_line ts s) = last_index s \<and> last_frame
       (add_line ts s) = last_frame s \<and>
   headline (add_line ts s) = headline s \<and> log_written (add_line ts s) = log_written s \<and>
   (\<exists>w. sink (add_line ts s) = sink s @ w) \<and>
   m_index (add_word ts s) = m_index s \<and> m_content (add_word ts s) = m_content s \<and>
   last_index (add_word ts s) = last_index s \<and> last_frame (add_word ts s) = last_frame s \<and>
   headline (add_word ts s) = headline s \<and> log_written (add_word ts s) = log_written s \<and>
   (\<exists>w. sink (add_word ts s) = sink s @ w)"
  by (simp add: add_line_def add_word_def sink_def endl_def put_items_concat put_put put_extends)

subsection \<open>C10: finalize changes no recorded data\<close>

text \<open>
  C10: for every state within capacity, finalize returns, leaves the stored rows and
  indices, both counters and the headline as they were, and sets the written flag.
\<close>

theorem finalize_keeps_recorded_data:
  assumes "within_capacity s"
  shows "\<exists>s1. write_out s = Returns s1 \<and>
           m_content s1 = m_content s \<and> m_index s1 = m_index s \<and>
           last_frame s1 = last_frame s \<and> last_index s1 = last_index s \<and>
           headline s1 = headline s \<and> log_written s1"
  using write_out_closed [OF assms] by simp

theorem finalize_keeps_recorded_data_witness:
  "within_capacity one_frame_recorder \<and>
   (\<exists>s1. write_out one_frame_recorder = Returns s1 \<and>
      m_content s1 = [[IntItem 7, StrItem ''q''], [IntItem 0, StrItem []]] \<and>
      m_index s1 = [0] \<and> last_frame s1 = 1 \<and> last_index s1 = 1 \<and>
      headline s1 = ''v'' \<and> log_written s1)"
proof -
  have w: "within_capacity one_frame_recorder"
    by (simp add: within_capacity_def one_frame_recorder_def)
  have d: "m_content one_frame_recorder = [[IntItem 7, StrItem ''q''], [IntItem 0, StrItem []]] \<and>
      m_index one_frame_recorder = [0] \<and> last_frame one_frame_recorder = 1 \<and>
      last_index one_frame_recorder = 1 \<and> headline one_frame_recorder = ''v''"
    by (simp add: one_frame_recorder_def)
  show ?thesis
    using w d finalize_keeps_recorded_data [OF w] by auto
qed

end
